theory Spec2Isabelle
  imports Complex_Main
begin

section \<open>The data model of \<open>bot.py\<close>\<close>

text \<open>
  The download-status enumeration of \<open>config.py\<close> and the \<open>DownloadTask\<close> dataclass of
  \<open>bot.py\<close>. Python integers are \<open>int\<close>; Python floats and the readings of
  \<open>time.time()\<close> are idealised as \<open>real\<close>. The optional video metadata, the selected
  format, the file path and the two datetimes of a task are never read by the operations
  modelled here and are not carried.
\<close>

datatype DownloadStatus =
  PENDING | EXTRACTING | DOWNLOADING | MERGING | UPLOADING | COMPLETED | FAILED | CANCELLED

record DownloadTask =
  task_id :: string
  user_id :: int
  chat_id :: int
  message_id :: int
  url :: string
  status :: DownloadStatus
  progress :: real
  downloaded_bytes :: int
  total_bytes :: int
  speed :: real
  eta :: int
  error_message :: string
  cancelled :: bool

text \<open>
  The state of \<open>BotState\<close>. \<open>_downloads\<close> and \<open>_cache\<close> are dictionaries, hence
  partial maps. \<open>_user_downloads\<close> is a \<open>defaultdict(set)\<close> and \<open>_rate_limits\<close> a
  \<open>defaultdict(list)\<close>: a key that was never written reads as the empty collection, so
  both are total functions. A Python set of task ids is kept as a list without
  repetitions (\<open>add\<close> is \<open>List.insert\<close>, \<open>discard\<close> is \<open>removeAll\<close>); the order
  in which Python iterates a set is unspecified, and nothing below depends on it.
  The type parameter is the type of cached values. Every clock reading is an explicit
  argument \<open>current_time\<close>.
\<close>

record 'v BotState =
  downloads :: "string \<rightharpoonup> DownloadTask"
  user_downloads :: "int \<Rightarrow> string list"
  cache :: "string \<rightharpoonup> ('v \<times> real)"
  rate_limits :: "int \<Rightarrow> real list"

definition init_state :: "'v BotState" where
  "init_state =
     \<lparr>downloads = Map.empty, user_downloads = (\<lambda>_. []),
      cache = Map.empty, rate_limits = (\<lambda>_. [])\<rparr>"

subsection \<open>The rate limiter\<close>

text \<open>
  \<open>BotState.check_rate_limit\<close>: the list comprehension keeps the timestamps strictly
  above \<open>cutoff_time\<close>, the result is stored back, and \<open>current_time\<close> is appended only
  on the allowed branch. The result is the returned pair and the new state.
\<close>

definition check_rate_limit ::
  "real \<Rightarrow> int \<Rightarrow> int \<Rightarrow> int \<Rightarrow> 'v BotState \<Rightarrow> (bool \<times> int) \<times> 'v BotState" where
  "check_rate_limit current_time uid limit window s =
     (let cutoff_time = current_time - real_of_int window;
          kept = filter (\<lambda>ts. ts > cutoff_time) (rate_limits s uid);
          s1 = s\<lparr>rate_limits := (rate_limits s)(uid := kept)\<rparr>;
          current_count = int (length kept);
          remaining = limit - current_count
      in if current_count < limit
         then ((True, remaining - 1),
               s1\<lparr>rate_limits := (rate_limits s1)(uid := kept @ [current_time])\<rparr>)
         else ((False, 0), s1))"

text \<open>
  A sequence of calls, each made by some user at some clock reading, with one limit and
  one window. The result lists every call with its \<open>allowed\<close> flag, in call order.
\<close>

fun check_calls ::
  "int \<Rightarrow> int \<Rightarrow> (int \<times> real) list \<Rightarrow> 'v BotState \<Rightarrow> (int \<times> real \<times> bool) list" where
  "check_calls limit window [] s = []"
| "check_calls limit window ((uid, t) # cs) s =
     (uid, t, fst (fst (check_rate_limit t uid limit window s)))
       # check_calls limit window cs (snd (check_rate_limit t uid limit window s))"

text \<open>
  The calls of user \<open>uid\<close> that were allowed and whose call time lies in the span
  \<open>[lo, lo + window)\<close>.
\<close>

definition allowed_in_span ::
  "int \<Rightarrow> real \<Rightarrow> int \<Rightarrow> (int \<times> real \<times> bool) list \<Rightarrow> (int \<times> real \<times> bool) list" where
  "allowed_in_span uid lo window rs =
     filter (\<lambda>(v, t, a). v = uid \<and> a \<and> lo \<le> t \<and> t < lo + real_of_int window) rs"

definition demo_state :: "unit BotState" where
  "demo_state = init_state\<lparr>rate_limits := (\<lambda>_. [])(7 := [80, 90, 95])\<rparr>"

subsection \<open>The task registry\<close>

text \<open>
  \<open>add_download\<close> assigns into the dictionary and adds the id to the owner's set; it
  has no check and no \<open>raise\<close>. \<open>remove_download\<close> does nothing for an unknown id.
  \<open>get_user_downloads\<close> is the list comprehension over the owner's ids that are keys of
  the dictionary.
\<close>

definition add_download :: "DownloadTask \<Rightarrow> 'v BotState \<Rightarrow> 'v BotState" where
  "add_download task s =
     s\<lparr>downloads := (downloads s)(task_id task \<mapsto> task),
       user_downloads := (user_downloads s)
         (user_id task := List.insert (task_id task) (user_downloads s (user_id task)))\<rparr>"

definition get_download :: "string \<Rightarrow> 'v BotState \<Rightarrow> DownloadTask option" where
  "get_download tid s = downloads s tid"

definition remove_download :: "string \<Rightarrow> 'v BotState \<Rightarrow> 'v BotState" where
  "remove_download tid s =
     (case downloads s tid of
        None \<Rightarrow> s
      | Some task \<Rightarrow>
          s\<lparr>user_downloads := (user_downloads s)
                (user_id task := removeAll tid (user_downloads s (user_id task))),
            downloads := (downloads s)(tid := None)\<rparr>)"

definition get_user_download_count :: "int \<Rightarrow> 'v BotState \<Rightarrow> int" where
  "get_user_download_count uid s = int (length (user_downloads s uid))"

definition get_user_downloads :: "int \<Rightarrow> 'v BotState \<Rightarrow> DownloadTask list" where
  "get_user_downloads uid s = List.map_filter (downloads s) (user_downloads s uid)"

text \<open>
  The loop of \<open>cancel_user_downloads\<close> over \<open>list(task_ids)\<close>: an id that is a key has
  its task's flag set and is counted, any other id is skipped.
\<close>

fun cancel_loop ::
  "string list \<Rightarrow> (string \<rightharpoonup> DownloadTask) \<Rightarrow> int \<Rightarrow> (string \<rightharpoonup> DownloadTask) \<times> int" where
  "cancel_loop [] d n = (d, n)"
| "cancel_loop (tid # tids) d n =
     (case d tid of
        None \<Rightarrow> cancel_loop tids d n
      | Some task \<Rightarrow> cancel_loop tids (d(tid \<mapsto> task\<lparr>cancelled := True\<rparr>)) (n + 1))"

definition cancel_user_downloads :: "int \<Rightarrow> 'v BotState \<Rightarrow> int \<times> 'v BotState" where
  "cancel_user_downloads uid s =
     (let task_ids = user_downloads s uid;
          r = cancel_loop task_ids (downloads s) 0
      in (snd r, s\<lparr>downloads := fst r\<rparr>))"

text \<open>
  What the specification asks of \<open>add\<close>, for comparison with \<open>add_download\<close>: a
  colliding id is refused with \<open>DuplicateTaskError\<close> and the registry is left as it was.
\<close>

datatype registry_error = DuplicateTaskError

definition add_download_spec ::
  "DownloadTask \<Rightarrow> 'v BotState \<Rightarrow> registry_error + 'v BotState" where
  "add_download_spec task s =
     (if task_id task \<in> dom (downloads s) then Inl DuplicateTaskError
      else Inr (s\<lparr>downloads := (downloads s)(task_id task \<mapsto> task),
                 user_downloads := (user_downloads s)
                   (user_id task := List.insert (task_id task)
                      (user_downloads s (user_id task)))\<rparr>))"

text \<open>Sequences of registry operations, and the agreement of the two indices.\<close>

datatype registry_op =
  AddDownload DownloadTask | RemoveDownload string | CancelUserDownloads int

fun apply_op :: "registry_op \<Rightarrow> 'v BotState \<Rightarrow> 'v BotState" where
  "apply_op (AddDownload task) s = add_download task s"
| "apply_op (RemoveDownload tid) s = remove_download tid s"
| "apply_op (CancelUserDownloads uid) s = snd (cancel_user_downloads uid s)"

fun run_ops :: "registry_op list \<Rightarrow> 'v BotState \<Rightarrow> 'v BotState" where
  "run_ops [] s = s"
| "run_ops (x # xs) s = run_ops xs (apply_op x s)"

definition index_consistent :: "'v BotState \<Rightarrow> bool" where
  "index_consistent s \<longleftrightarrow>
     (\<forall>tid uid. (\<exists>task. downloads s tid = Some task \<and> user_id task = uid)
                  \<longleftrightarrow> tid \<in> set (user_downloads s uid))"

text \<open>
  A sequence of operations in which no \<open>add_download\<close> reuses an id that is live under
  a different owner.
\<close>

fun adds_keep_owner :: "registry_op list \<Rightarrow> 'v BotState \<Rightarrow> bool" where
  "adds_keep_owner [] s = True"
| "adds_keep_owner (x # xs) s =
     ((case x of
         AddDownload task \<Rightarrow>
           (case downloads s (task_id task) of
              None \<Rightarrow> True
            | Some old \<Rightarrow> user_id old = user_id task)
       | _ \<Rightarrow> True)
      \<and> adds_keep_owner xs (apply_op x s))"

definition mk_task :: "string \<Rightarrow> int \<Rightarrow> DownloadTask" where
  "mk_task tid uid =
     \<lparr>task_id = tid, user_id = uid, chat_id = 0, message_id = 0, url = ''u'',
      status = PENDING, progress = 0, downloaded_bytes = 0, total_bytes = 0,
      speed = 0, eta = 0, error_message = [], cancelled = False\<rparr>"

subsection \<open>The expiring cache\<close>

text \<open>
  \<open>get_cached\<close> returns the value of a live entry, deletes an entry whose age has
  reached \<open>ttl\<close>, and answers \<open>None\<close> for it and for a missing key.
\<close>

definition get_cached ::
  "real \<Rightarrow> string \<Rightarrow> int \<Rightarrow> 'v BotState \<Rightarrow> 'v option \<times> 'v BotState" where
  "get_cached current_time key ttl s =
     (case cache s key of
        None \<Rightarrow> (None, s)
      | Some (v, timestamp) \<Rightarrow>
          if current_time - timestamp < real_of_int ttl then (Some v, s)
          else (None, s\<lparr>cache := (cache s)(key := None)\<rparr>))"

definition set_cached :: "real \<Rightarrow> string \<Rightarrow> 'v \<Rightarrow> 'v BotState \<Rightarrow> 'v BotState" where
  "set_cached current_time key v s = s\<lparr>cache := (cache s)(key \<mapsto> (v, current_time))\<rparr>"

text \<open>
  Sequences of cache operations, and the sequences that leave the entry of one key as it
  is: no \<open>set_cached\<close> of the key and no \<open>get_cached\<close> that evicts it.
\<close>

datatype 'v cache_op = CacheSet real string 'v | CacheGet real string int

fun apply_cache_op :: "'v cache_op \<Rightarrow> 'v BotState \<Rightarrow> 'v BotState" where
  "apply_cache_op (CacheSet t k v) s = set_cached t k v s"
| "apply_cache_op (CacheGet t k ttl) s = snd (get_cached t k ttl s)"

fun run_cache_ops :: "'v cache_op list \<Rightarrow> 'v BotState \<Rightarrow> 'v BotState" where
  "run_cache_ops [] s = s"
| "run_cache_ops (x # xs) s = run_cache_ops xs (apply_cache_op x s)"

fun entry_untouched :: "string \<Rightarrow> 'v cache_op list \<Rightarrow> 'v BotState \<Rightarrow> bool" where
  "entry_untouched key [] s = True"
| "entry_untouched key (x # xs) s =
     (cache (apply_cache_op x s) key = cache s key
      \<and> entry_untouched key xs (apply_cache_op x s))"

subsection \<open>Example states\<close>

definition reg_state :: "unit BotState" where
  "reg_state = run_ops [AddDownload (mk_task ''a'' 1), AddDownload (mk_task ''b'' 1),
                        AddDownload (mk_task ''c'' 2)] init_state"

definition collide_state :: "unit BotState" where
  "collide_state =
     run_ops [AddDownload (mk_task ''a'' 1), AddDownload (mk_task ''a'' 2)] init_state"

definition demo_ops :: "registry_op list" where
  "demo_ops = [AddDownload (mk_task ''a'' 1), AddDownload (mk_task ''b'' 1),
               AddDownload (mk_task ''c'' 2), CancelUserDownloads 2,
               AddDownload (mk_task ''a'' 1), RemoveDownload ''b'']"

definition cache_demo_ops :: "int cache_op list" where
  "cache_demo_ops = [CacheSet 11 ''other'' 5, CacheGet 12 ''k'' 300, CacheGet 500 ''other'' 300]"

section \<open>The progress tracker\<close>

text \<open>
  The fields of \<open>ProgressTracker\<close>; \<open>last_update\<close>, \<open>update_interval\<close> and
  \<open>last_text\<close> are the private \<open>_last_update\<close>, \<open>_update_interval\<close> and \<open>_last_text\<close>.
  The client and the lock are not state of the model: the lock serialises the calls,
  which the model runs one after the other, and the client's answer to an edit request
  is an argument of the call.
\<close>

record ProgressTracker =
  chat_id :: int
  message_id :: int
  user_id :: int
  task_id :: string
  lang_code :: string
  last_update :: real
  update_interval :: real
  last_text :: string
  status :: DownloadStatus
  progress :: real
  downloaded_bytes :: int
  total_bytes :: int
  speed :: real
  eta :: int
  quality :: string
  filename :: string

text \<open>
  The snapshot is what \<open>_format_progress_message\<close> reads. The message is looked up and
  filled in by \<open>get_text\<close> of the \<open>languages\<close> package, whose tables and number
  formatting are parameters here: \<open>get_text\<close> for a lookup without arguments (key and
  language), \<open>get_text_args\<close> for a lookup whose keyword arguments are all formatted from
  the snapshot. The status decides the key, in the order of the source.
\<close>

type_synonym snapshot = "DownloadStatus \<times> string \<times> real \<times> int \<times> int \<times> real \<times> int \<times> string"

definition snapshot :: "ProgressTracker \<Rightarrow> snapshot" where
  "snapshot tr =
     (status tr, lang_code tr, progress tr, downloaded_bytes tr, total_bytes tr,
      speed tr, eta tr, quality tr)"

record texts =
  get_text :: "string \<Rightarrow> string \<Rightarrow> string"
  get_text_args :: "string \<Rightarrow> snapshot \<Rightarrow> string"

definition format_progress_message :: "texts \<Rightarrow> ProgressTracker \<Rightarrow> string" where
  "format_progress_message T tr =
     (if status tr = DOWNLOADING then get_text_args T ''download.progress'' (snapshot tr)
      else if status tr = MERGING then get_text T ''download.merging'' (lang_code tr)
      else if status tr = UPLOADING then get_text_args T ''download.uploading'' (snapshot tr)
      else get_text T ''common.processing'' (lang_code tr))"

text \<open>
  The arguments of \<open>update\<close>: \<open>None\<close> is an omitted (or \<open>None\<close>) argument. What the
  client answers to \<open>edit_message_text\<close>, and what a call does that can be observed.
\<close>

record update_args =
  new_status :: "DownloadStatus option"
  new_progress :: "real option"
  new_downloaded_bytes :: "int option"
  new_total_bytes :: "int option"
  new_speed :: "real option"
  new_eta :: "int option"
  force :: bool

datatype edit_result = EditOk | MessageNotModified | FloodWait int | OtherError

datatype action = EditMessageText int int string | Sleep int | LogWarning | LogError

definition merge_args :: "update_args \<Rightarrow> ProgressTracker \<Rightarrow> ProgressTracker" where
  "merge_args a tr =
     tr\<lparr>status := (case new_status a of None \<Rightarrow> status tr | Some v \<Rightarrow> v),
        progress := (case new_progress a of None \<Rightarrow> progress tr | Some v \<Rightarrow> v),
        downloaded_bytes :=
          (case new_downloaded_bytes a of None \<Rightarrow> downloaded_bytes tr | Some v \<Rightarrow> v),
        total_bytes := (case new_total_bytes a of None \<Rightarrow> total_bytes tr | Some v \<Rightarrow> v),
        speed := (case new_speed a of None \<Rightarrow> speed tr | Some v \<Rightarrow> v),
        eta := (case new_eta a of None \<Rightarrow> eta tr | Some v \<Rightarrow> v)\<rparr>"

text \<open>
  \<open>ProgressTracker.update\<close>: merge, return inside the debounce interval unless forced,
  return when the text is the last sent one, otherwise request the edit. Only an
  accepted edit records the text and the time; \<open>MessageNotModified\<close> is swallowed,
  \<open>FloodWait\<close> is logged and slept, any other exception is logged.
\<close>

definition update ::
  "texts \<Rightarrow> update_args \<Rightarrow> real \<Rightarrow> edit_result \<Rightarrow> ProgressTracker
     \<Rightarrow> ProgressTracker \<times> action list" where
  "update T a current_time answer tr =
     (let tr1 = merge_args a tr
      in if \<not> force a \<and> current_time - last_update tr1 < update_interval tr1 then (tr1, [])
         else
           (let new_text = format_progress_message T tr1
            in if new_text = last_text tr1 then (tr1, [])
               else
                 (case answer of
                    EditOk \<Rightarrow>
                      (tr1\<lparr>last_text := new_text, last_update := current_time\<rparr>,
                       [EditMessageText (chat_id tr1) (message_id tr1) new_text])
                  | MessageNotModified \<Rightarrow>
                      (tr1, [EditMessageText (chat_id tr1) (message_id tr1) new_text])
                  | FloodWait n \<Rightarrow>
                      (tr1, [EditMessageText (chat_id tr1) (message_id tr1) new_text,
                             LogWarning, Sleep n])
                  | OtherError \<Rightarrow>
                      (tr1, [EditMessageText (chat_id tr1) (message_id tr1) new_text,
                             LogError]))))"

definition set_status ::
  "texts \<Rightarrow> DownloadStatus \<Rightarrow> bool \<Rightarrow> real \<Rightarrow> edit_result \<Rightarrow> ProgressTracker
     \<Rightarrow> ProgressTracker \<times> action list" where
  "set_status T st frc current_time answer tr =
     update T \<lparr>new_status = Some st, new_progress = None, new_downloaded_bytes = None,
               new_total_bytes = None, new_speed = None, new_eta = None, force = frc\<rparr>
       current_time answer tr"

text \<open>
  \<open>ProgressTracker.complete\<close>: the edit is requested at once; any exception is logged.
  No field of the tracker is read but the chat and message ids, and none is written.
\<close>

definition complete ::
  "string \<Rightarrow> edit_result \<Rightarrow> ProgressTracker \<Rightarrow> ProgressTracker \<times> action list" where
  "complete text answer tr =
     (tr, EditMessageText (chat_id tr) (message_id tr) text
            # (case answer of EditOk \<Rightarrow> [] | _ \<Rightarrow> [LogError]))"

text \<open>The texts of the edit requests among some actions, in order.\<close>

fun edit_texts :: "action list \<Rightarrow> string list" where
  "edit_texts [] = []"
| "edit_texts (EditMessageText c m t # as) = t # edit_texts as"
| "edit_texts (x # as) = edit_texts as"

text \<open>
  A sequence of \<open>update\<close> calls, each with its clock reading and the client's answer; the
  tracker after them and all their actions. \<open>merge_all\<close> is the merge of the arguments
  of all the calls and nothing else.
\<close>

fun run_updates ::
  "texts \<Rightarrow> (update_args \<times> real \<times> edit_result) list \<Rightarrow> ProgressTracker
     \<Rightarrow> ProgressTracker \<times> action list" where
  "run_updates T [] tr = (tr, [])"
| "run_updates T ((a, t, r) # cs) tr =
     (fst (run_updates T cs (fst (update T a t r tr))),
      snd (update T a t r tr) @ snd (run_updates T cs (fst (update T a t r tr))))"

fun merge_all :: "(update_args \<times> real \<times> edit_result) list \<Rightarrow> ProgressTracker \<Rightarrow> ProgressTracker" where
  "merge_all [] tr = tr"
| "merge_all ((a, t, r) # cs) tr = merge_all cs (merge_args a tr)"

text \<open>
  What each call of a sequence did: its clock reading, the client's answer and its
  actions. The time of the last actual edit is the reading of the last call that
  requested an edit which the client accepted, or the given earlier time when there is
  none.
\<close>

fun update_trace ::
  "texts \<Rightarrow> (update_args \<times> real \<times> edit_result) list \<Rightarrow> ProgressTracker
     \<Rightarrow> (real \<times> edit_result \<times> action list) list" where
  "update_trace T [] tr = []"
| "update_trace T ((a, t, r) # cs) tr =
     (t, r, snd (update T a t r tr)) # update_trace T cs (fst (update T a t r tr))"

fun last_actual_edit :: "real \<Rightarrow> (real \<times> edit_result \<times> action list) list \<Rightarrow> real" where
  "last_actual_edit t0 [] = t0"
| "last_actual_edit t0 ((t, r, acts) # xs) =
     last_actual_edit (if r = EditOk \<and> edit_texts acts \<noteq> [] then t else t0) xs"

definition demo_tracker :: ProgressTracker where
  "demo_tracker =
     \<lparr>chat_id = 5, message_id = 9, user_id = 1, task_id = ''a'', lang_code = ''en'',
      last_update = 0, update_interval = 2, last_text = [],
      status = PENDING, progress = 0, downloaded_bytes = 0, total_bytes = 0,
      speed = 0, eta = 0, quality = [], filename = []\<rparr>"

definition demo_texts :: texts where
  "demo_texts = \<lparr>get_text = (\<lambda>key lang. key), get_text_args = (\<lambda>key snap. key)\<rparr>"

definition no_args :: "bool \<Rightarrow> update_args" where
  "no_args frc =
     \<lparr>new_status = None, new_progress = None, new_downloaded_bytes = None,
      new_total_bytes = None, new_speed = None, new_eta = None, force = frc\<rparr>"

text \<open>Example texts and arguments.\<close>

definition probe_texts :: texts where
  "probe_texts =
     \<lparr>get_text = (\<lambda>key lang. key),
      get_text_args = (\<lambda>key (st, lang, p, rest). if p = 10 then key @ '' 10'' else key)\<rparr>"

definition progress_args :: "real \<Rightarrow> update_args" where
  "progress_args p = (no_args False)\<lparr>new_progress := Some p\<rparr>"

definition status_args :: "DownloadStatus \<Rightarrow> bool \<Rightarrow> update_args" where
  "status_args st frc = (no_args frc)\<lparr>new_status := Some st\<rparr>"

section \<open>The progress hook of the download engine\<close>

text \<open>
  The event is a dictionary from strings to Python values, of which \<open>None\<close>, numbers
  and strings are modelled. \<open>d.get(k, default)\<close> answers the default for a missing key
  only: a key bound to \<open>None\<close> reads as \<open>None\<close>. \<open>x or y\<close> is \<open>x\<close> when \<open>x\<close> is
  truthy. Comparing \<open>None\<close> or a string with \<open>0\<close>, and dividing one, raise
  \<open>TypeError\<close>.
\<close>

datatype pyval = PyNone | PyNum real | PyStr string

datatype py_error = TypeError

type_synonym event = "string \<rightharpoonup> pyval"

definition py_get :: "event \<Rightarrow> string \<Rightarrow> pyval \<Rightarrow> pyval" where
  "py_get d k dflt = (case d k of None \<Rightarrow> dflt | Some v \<Rightarrow> v)"

fun truthy :: "pyval \<Rightarrow> bool" where
  "truthy PyNone = False"
| "truthy (PyNum x) = (x \<noteq> 0)"
| "truthy (PyStr s) = (s \<noteq> [])"

definition py_or :: "pyval \<Rightarrow> pyval \<Rightarrow> pyval" where
  "py_or x y = (if truthy x then x else y)"

fun py_gt_zero :: "pyval \<Rightarrow> py_error + bool" where
  "py_gt_zero (PyNum x) = Inr (x > 0)"
| "py_gt_zero v = Inl TypeError"

fun py_percent :: "pyval \<Rightarrow> pyval \<Rightarrow> py_error + pyval" where
  "py_percent (PyNum x) (PyNum y) = Inr (PyNum (x / y * 100))"
| "py_percent v w = Inl TypeError"

text \<open>
  A scheduled call \<open>tracker.update(...)\<close> with the values passed, \<open>PyNone\<close> for a keyword
  that is not passed; and the log line of the \<open>error\<close> branch.
\<close>

record scheduled_update =
  upd_status :: "DownloadStatus option"
  upd_progress :: pyval
  upd_downloaded_bytes :: pyval
  upd_total_bytes :: pyval
  upd_speed :: pyval
  upd_eta :: pyval
  upd_force :: bool

datatype hook_action = RunCoroutineThreadsafe scheduled_update | LogYtdlpError pyval

text \<open>\<open>YTDLPProgressHook.__call__\<close>.\<close>

definition ytdlp_hook :: "event \<Rightarrow> py_error + hook_action list" where
  "ytdlp_hook d =
     (let st = py_get d ''status'' PyNone
      in if st = PyStr ''downloading'' then
           (let downloaded = py_get d ''downloaded_bytes'' (PyNum 0);
                total = py_or (py_get d ''total_bytes'' PyNone)
                              (py_get d ''total_bytes_estimate'' (PyNum 0));
                spd = py_or (py_get d ''speed'' (PyNum 0)) (PyNum 0);
                et = py_or (py_get d ''eta'' (PyNum 0)) (PyNum 0)
            in case py_gt_zero total of
                 Inl e \<Rightarrow> Inl e
               | Inr positive \<Rightarrow>
                   (case (if positive then py_percent downloaded total else Inr (PyNum 0)) of
                      Inl e \<Rightarrow> Inl e
                    | Inr prog \<Rightarrow>
                        Inr [RunCoroutineThreadsafe
                              \<lparr>upd_status = Some DOWNLOADING, upd_progress = prog,
                               upd_downloaded_bytes = downloaded, upd_total_bytes = total,
                               upd_speed = spd, upd_eta = et, upd_force = False\<rparr>]))
         else if st = PyStr ''finished'' then
           Inr [RunCoroutineThreadsafe
                 \<lparr>upd_status = Some MERGING, upd_progress = PyNum 100,
                  upd_downloaded_bytes = PyNone, upd_total_bytes = PyNone,
                  upd_speed = PyNone, upd_eta = PyNone, upd_force = True\<rparr>]
         else if st = PyStr ''error'' then
           Inr [LogYtdlpError (py_get d ''error'' (PyStr ''Unknown error''))]
         else Inr [])"

section \<open>The rate limiter: results\<close>

lemma check_rate_limit_other:
  "v \<noteq> uid \<Longrightarrow>
     rate_limits (snd (check_rate_limit t v limit window s)) uid = rate_limits s uid"
  by (simp add: check_rate_limit_def Let_def)

lemma check_rate_limit_same:
  "rate_limits (snd (check_rate_limit t uid limit window s)) uid =
     filter (\<lambda>ts. ts > t - real_of_int window) (rate_limits s uid)
       @ (if int (length (filter (\<lambda>ts. ts > t - real_of_int window) (rate_limits s uid))) < limit
          then [t] else [])"
  by (simp add: check_rate_limit_def Let_def)

lemma check_rate_limit_allowed:
  "fst (fst (check_rate_limit t uid limit window s)) \<longleftrightarrow>
     int (length (filter (\<lambda>ts. ts > t - real_of_int window) (rate_limits s uid))) < limit"
  by (simp add: check_rate_limit_def Let_def)

text \<open>
  C1. For every user, limit, window and call time, \<open>check_rate_limit\<close> first keeps of
  the user's timestamps exactly those above \<open>now - window\<close>, so that every timestamp
  older than \<open>now - window\<close> is purged; when the number of survivors is below the limit
  it appends \<open>now\<close> and returns \<open>(True, limit - count - 1)\<close>, otherwise it returns
  \<open>(False, 0)\<close> and appends nothing. Nothing else in the state changes.
\<close>

theorem check_rate_limit_spec:
  "(let surviving = filter (\<lambda>ts. now - real_of_int window < ts) (rate_limits s uid);
        n = int (length surviving)
    in (\<forall>ts \<in> set (rate_limits s uid). ts < now - real_of_int window \<longrightarrow> ts \<notin> set surviving)
       \<and> check_rate_limit now uid limit window s =
           (if n < limit
            then ((True, limit - n - 1),
                  s\<lparr>rate_limits := (rate_limits s)(uid := surviving @ [now])\<rparr>)
            else ((False, 0), s\<lparr>rate_limits := (rate_limits s)(uid := surviving)\<rparr>)))"
  by (simp add: check_rate_limit_def Let_def)

theorem check_rate_limit_spec_witness:
  "80 \<in> set (rate_limits demo_state 7) \<and> (80::real) < 100 - real_of_int 10
   \<and> check_rate_limit 100 7 3 10 demo_state =
       ((True, 1), demo_state\<lparr>rate_limits := (rate_limits demo_state)(7 := [95, 100])\<rparr>)
   \<and> check_rate_limit 100 7 1 10 demo_state =
       ((False, 0), demo_state\<lparr>rate_limits := (rate_limits demo_state)(7 := [95])\<rparr>)"
  using check_rate_limit_spec [of 100 10 demo_state 7 3]
        check_rate_limit_spec [of 100 10 demo_state 7 1]
  by (simp add: demo_state_def Let_def)

text \<open>
  Towards the sliding-window bound. A call made before \<open>lo + window\<close> has its cutoff
  below \<open>lo\<close>, so it purges no timestamp at or above \<open>lo\<close>: the number of such
  timestamps in the user's list only grows, by one with every allowed call in the span,
  and an allowed call needs it below the limit.
\<close>

lemma span_empty_after:
  "\<forall>(v, t) \<in> set cs. lo + real_of_int window \<le> t \<Longrightarrow>
     allowed_in_span uid lo window (check_calls limit window cs s) = []"
  by (induction cs arbitrary: s) (auto simp: allowed_in_span_def)

lemma span_bound_aux:
  "sorted (map snd cs) \<Longrightarrow>
   int (length (allowed_in_span uid lo window (check_calls limit window cs s)))
     + int (length (filter (\<lambda>x. lo \<le> x) (rate_limits s uid)))
   \<le> max limit (int (length (filter (\<lambda>x. lo \<le> x) (rate_limits s uid))))"
proof (induction cs arbitrary: s)
  case Nil
  then show ?case by (simp add: allowed_in_span_def)
next
  case (Cons c cs)
  obtain v t where c: "c = (v, t)" by (cases c)
  let ?s' = "snd (check_rate_limit t v limit window s)"
  let ?c = "\<lambda>s. int (length (filter (\<lambda>x. lo \<le> x) (rate_limits s uid)))"
  from Cons.prems c have srt: "sorted (map snd cs)" and le: "\<forall>x \<in> set cs. t \<le> snd x"
    by auto
  have IH: "int (length (allowed_in_span uid lo window (check_calls limit window cs ?s')))
     + ?c ?s' \<le> max limit (?c ?s')"
    using Cons.IH [OF srt] .
  show ?case
  proof (cases "lo + real_of_int window \<le> t")
    case True
    then have "\<forall>(v, t) \<in> set (c # cs). lo + real_of_int window \<le> t"
      using le c by fastforce
    then have "allowed_in_span uid lo window (check_calls limit window (c # cs) s) = []"
      by (rule span_empty_after)
    then show ?thesis by simp
  next
    case False
    then have lt: "t - real_of_int window < lo" by simp
    show ?thesis
    proof (cases "v = uid")
      case False
      then have "rate_limits ?s' uid = rate_limits s uid"
        by (simp add: check_rate_limit_other)
      with IH False c show ?thesis by (simp add: allowed_in_span_def)
    next
      case True
      let ?kept = "filter (\<lambda>ts. ts > t - real_of_int window) (rate_limits s uid)"
      have keep: "filter (\<lambda>x. lo \<le> x) ?kept = filter (\<lambda>x. lo \<le> x) (rate_limits s uid)"
        using lt by (auto intro!: filter_cong simp: filter_filter) 
      have le_kept: "length (filter (\<lambda>x. lo \<le> x) (rate_limits s uid)) \<le> length ?kept"
        using keep length_filter_le [of "\<lambda>x. lo \<le> x" ?kept] by simp
      show ?thesis
      proof (cases "int (length ?kept) < limit")
        case allowed: True
        have rl: "rate_limits ?s' uid = ?kept @ [t]"
          using allowed True by (simp add: check_rate_limit_same)
        have al: "fst (fst (check_rate_limit t v limit window s))"
          using allowed True by (simp add: check_rate_limit_allowed)
        show ?thesis
        proof (cases "lo \<le> t")
          case True
          have "?c ?s' = ?c s + 1" using rl keep True by simp
          moreover have "int (length (allowed_in_span uid lo window (check_calls limit window (c # cs) s)))
            = 1 + int (length (allowed_in_span uid lo window (check_calls limit window cs ?s')))"
            using c \<open>v = uid\<close> al True False by (simp add: allowed_in_span_def)
          ultimately show ?thesis using IH allowed le_kept by linarith
        next
          case False
          have "?c ?s' = ?c s" using rl keep False by simp
          moreover have "allowed_in_span uid lo window (check_calls limit window (c # cs) s)
            = allowed_in_span uid lo window (check_calls limit window cs ?s')"
            using c False by (simp add: allowed_in_span_def)
          ultimately show ?thesis using IH by simp
        qed
      next
        case denied: False
        have rl: "rate_limits ?s' uid = ?kept"
          using denied True by (simp add: check_rate_limit_same)
        have al: "\<not> fst (fst (check_rate_limit t v limit window s))"
          using denied True by (simp add: check_rate_limit_allowed)
        have "?c ?s' = ?c s" using rl keep by simp
        moreover have "allowed_in_span uid lo window (check_calls limit window (c # cs) s)
            = allowed_in_span uid lo window (check_calls limit window cs ?s')"
          using c al by (simp add: allowed_in_span_def)
        ultimately show ?thesis using IH by simp
      qed
    qed
  qed
qed

text \<open>
  C2. Fix a user, a limit \<open>0 \<le> L\<close> and a window \<open>W\<close>. For every finite sequence of
  \<open>check_rate_limit\<close> calls (by any users, from any state) listed in the order they are
  made, with clock readings that do not decrease, and for every span \<open>[lo, lo + W)\<close>
  of \<open>W\<close> seconds, at most \<open>L\<close> of the user's calls whose call time falls in the span
  return \<open>allowed = True\<close>.
\<close>

theorem sliding_window_bound:
  assumes "sorted (map snd cs)" and "0 \<le> limit"
  shows "int (length (allowed_in_span uid lo window (check_calls limit window cs s))) \<le> limit"
  using span_bound_aux [OF assms(1), of uid lo window limit s] assms(2) by linarith

theorem sliding_window_bound_witness:
  "sorted (map snd [(7::int, 0::real), (7, 4), (8, 5), (7, 9), (7, 12)]) \<and> (0::int) \<le> 2
   \<and> check_calls 2 10 [(7, 0), (7, 4), (8, 5), (7, 9), (7, 12)] (init_state :: unit BotState)
        = [(7, 0, True), (7, 4, True), (8, 5, True), (7, 9, False), (7, 12, True)]
   \<and> int (length (allowed_in_span 7 0 10
        (check_calls 2 10 [(7, 0), (7, 4), (8, 5), (7, 9), (7, 12)] (init_state :: unit BotState)))) \<le> 2
   \<and> int (length (allowed_in_span 7 3 10
        (check_calls 2 10 [(7, 0), (7, 4), (8, 5), (7, 9), (7, 12)] (init_state :: unit BotState)))) \<le> 2"
  using sliding_window_bound [of "[(7, 0), (7, 4), (8, 5), (7, 9), (7, 12)]" 2 7 0 10 "init_state :: unit BotState"]
        sliding_window_bound [of "[(7, 0), (7, 4), (8, 5), (7, 9), (7, 12)]" 2 7 3 10 "init_state :: unit BotState"]
  by (simp add: init_state_def check_rate_limit_def Let_def)

text \<open>
  The span is half open and the clock is taken not to run backwards: a timestamp exactly
  \<open>window\<close> seconds old is already purged, and a call made at an earlier reading than a
  purging call finds the list emptied.
\<close>

lemma span_closed_boundary:
  "check_calls 1 10 [(7, 0), (7, 10)] (init_state :: unit BotState)
     = [(7, 0, True), (7, 10, True)]"
  by (simp add: init_state_def check_rate_limit_def Let_def)

lemma clock_set_back:
  "check_calls 2 10 [(7, 0), (7, 1), (7, 100), (7, 2)] (init_state :: unit BotState)
     = [(7, 0, True), (7, 1, True), (7, 100, True), (7, 2, True)]"
  by (simp add: init_state_def check_rate_limit_def Let_def)

section \<open>The task registry: results\<close>

lemma cancel_loop_result:
  "cancel_loop ids d n =
     ((\<lambda>tid. if tid \<in> set ids then map_option (\<lambda>t. t\<lparr>cancelled := True\<rparr>) (d tid) else d tid),
      n + int (length (filter (\<lambda>tid. d tid \<noteq> None) ids)))"
proof (induction ids arbitrary: d n)
  case Nil
  then show ?case by simp
next
  case (Cons tid ids)
  show ?case
  proof (cases "d tid")
    case None
    then show ?thesis by (auto simp: Cons.IH)
  next
    case (Some task)
    let ?d2 = "d(tid \<mapsto> task\<lparr>cancelled := True\<rparr>)"
    have flt: "filter (\<lambda>x. ?d2 x \<noteq> None) ids = filter (\<lambda>x. d x \<noteq> None) ids"
      using Some by (intro filter_cong) auto
    have "cancel_loop (tid # ids) d n = cancel_loop ids ?d2 (n + 1)"
      using Some by simp
    also have "\<dots> = ((\<lambda>x. if x \<in> set ids then map_option (\<lambda>t. t\<lparr>cancelled := True\<rparr>) (?d2 x) else ?d2 x),
        n + 1 + int (length (filter (\<lambda>x. ?d2 x \<noteq> None) ids)))"
      by (rule Cons.IH)
    also have "\<dots> = ((\<lambda>x. if x \<in> set (tid # ids) then map_option (\<lambda>t. t\<lparr>cancelled := True\<rparr>) (d x) else d x),
        n + int (length (filter (\<lambda>x. d x \<noteq> None) (tid # ids))))"
      using Some flt by (auto simp: fun_eq_iff)
    finally show ?thesis .
  qed
qed

lemma map_filter_cancel:
  "List.map_filter (\<lambda>tid. if tid \<in> set ids then map_option f (d tid) else d tid) xs
     = (if set xs \<subseteq> set ids then map f (List.map_filter d xs) else
        List.map_filter (\<lambda>tid. if tid \<in> set ids then map_option f (d tid) else d tid) xs)"
  by (induction xs) (auto simp: List.map_filter_simps split: option.splits)

lemma length_map_filter:
  "length (List.map_filter d xs) = length (filter (\<lambda>x. d x \<noteq> None) xs)"
  by (induction xs) (auto simp: List.map_filter_simps split: option.splits)

lemma cancel_downloads:
  "downloads (snd (cancel_user_downloads uid s)) =
     (\<lambda>tid. if tid \<in> set (user_downloads s uid)
            then map_option (\<lambda>t. t\<lparr>cancelled := True\<rparr>) (downloads s tid) else downloads s tid)"
  by (simp add: cancel_user_downloads_def Let_def cancel_loop_result)

lemma cancel_frame:
  "user_downloads (snd (cancel_user_downloads uid s)) = user_downloads s"
  "cache (snd (cancel_user_downloads uid s)) = cache s"
  "rate_limits (snd (cancel_user_downloads uid s)) = rate_limits s"
  by (simp_all add: cancel_user_downloads_def Let_def)

lemma cancel_count:
  "fst (cancel_user_downloads uid s) = int (length (get_user_downloads uid s))"
  by (simp add: cancel_user_downloads_def Let_def cancel_loop_result get_user_downloads_def
      length_map_filter)

lemma cancel_listing:
  "get_user_downloads uid (snd (cancel_user_downloads uid s)) =
     map (\<lambda>t. t\<lparr>cancelled := True\<rparr>) (get_user_downloads uid s)"
  unfolding get_user_downloads_def cancel_downloads cancel_frame
  by (subst map_filter_cancel) simp

lemma cancel_owner:
  assumes "index_consistent s" and "downloads s tid = Some task"
  shows "downloads (snd (cancel_user_downloads uid s)) tid =
           Some (if DownloadTask.user_id task = uid then task\<lparr>cancelled := True\<rparr> else task)"
proof -
  have "tid \<in> set (user_downloads s uid) \<longleftrightarrow> DownloadTask.user_id task = uid"
    using assms unfolding index_consistent_def by (metis option.sel)
  then show ?thesis using assms(2) by (simp add: cancel_downloads)
qed

text \<open>
  What \<open>cancel_user_downloads\<close> does in any state, in terms of the index set of the
  user: the count is the length of the listing, the listing afterwards is the same with
  every flag set, no key and no index set changes, and a task whose id is not in the
  user's index is unchanged.
\<close>

lemma cancel_user_downloads_index:
  "(let r = cancel_user_downloads uid s; s' = snd r
    in fst r = int (length (get_user_downloads uid s))
       \<and> get_user_downloads uid s' = map (\<lambda>t. t\<lparr>cancelled := True\<rparr>) (get_user_downloads uid s)
       \<and> (\<forall>t \<in> set (get_user_downloads uid s'). cancelled t)
       \<and> dom (downloads s') = dom (downloads s)
       \<and> user_downloads s' = user_downloads s
       \<and> (\<forall>tid. tid \<notin> set (user_downloads s uid) \<longrightarrow> downloads s' tid = downloads s tid)
       \<and> cache s' = cache s \<and> rate_limits s' = rate_limits s
       \<and> (index_consistent s \<longrightarrow>
            (\<forall>tid task. downloads s tid = Some task \<longrightarrow>
               downloads s' tid =
                 Some (if DownloadTask.user_id task = uid then task\<lparr>cancelled := True\<rparr> else task))))"
  unfolding Let_def
proof (intro conjI)
  show "dom (downloads (snd (cancel_user_downloads uid s))) = dom (downloads s)"
    by (auto simp: cancel_downloads dom_def split: if_splits)
  show "\<forall>t \<in> set (get_user_downloads uid (snd (cancel_user_downloads uid s))). cancelled t"
    by (simp add: cancel_listing)
  show "\<forall>tid. tid \<notin> set (user_downloads s uid) \<longrightarrow>
          downloads (snd (cancel_user_downloads uid s)) tid = downloads s tid"
    by (simp add: cancel_downloads)
  show "index_consistent s \<longrightarrow>
          (\<forall>tid task. downloads s tid = Some task \<longrightarrow>
             downloads (snd (cancel_user_downloads uid s)) tid =
               Some (if DownloadTask.user_id task = uid then task\<lparr>cancelled := True\<rparr> else task))"
    using cancel_owner by blast
qed (simp_all add: cancel_count cancel_listing cancel_frame)

lemma init_consistent: "index_consistent init_state"
  by (simp add: index_consistent_def init_state_def)

lemma add_consistent:
  assumes "index_consistent s"
    and "case downloads s (DownloadTask.task_id task) of None \<Rightarrow> True
         | Some old \<Rightarrow> DownloadTask.user_id old = DownloadTask.user_id task"
  shows "index_consistent (add_download task s)"
  unfolding index_consistent_def
proof (intro allI)
  fix tid uid
  show "(\<exists>t. downloads (add_download task s) tid = Some t \<and> DownloadTask.user_id t = uid)
          \<longleftrightarrow> tid \<in> set (user_downloads (add_download task s) uid)"
  proof (cases "tid = DownloadTask.task_id task")
    case False
    then show ?thesis
      using assms(1) unfolding index_consistent_def by (simp add: add_download_def)
  next
    case True
    have other: "tid \<notin> set (user_downloads s uid)" if "uid \<noteq> DownloadTask.user_id task"
    proof
      assume "tid \<in> set (user_downloads s uid)"
      then obtain old where "downloads s tid = Some old" "DownloadTask.user_id old = uid"
        using assms(1) unfolding index_consistent_def by blast
      with assms(2) True that show False by simp
    qed
    show ?thesis using True other by (auto simp: add_download_def)
  qed
qed

lemma remove_consistent:
  assumes "index_consistent s"
  shows "index_consistent (remove_download tid s)"
proof (cases "downloads s tid")
  case None
  then show ?thesis using assms by (simp add: remove_download_def)
next
  case (Some task)
  have own: "\<And>x u. x \<in> set (user_downloads s u) \<longleftrightarrow>
               (\<exists>t. downloads s x = Some t \<and> DownloadTask.user_id t = u)"
    using assms unfolding index_consistent_def by blast
  show ?thesis
    unfolding index_consistent_def
    using Some by (auto simp: remove_download_def own)
qed

lemma cancel_consistent:
  assumes "index_consistent s"
  shows "index_consistent (snd (cancel_user_downloads uid s))"
proof -
  have "(\<exists>t. downloads (snd (cancel_user_downloads uid s)) tid = Some t \<and> DownloadTask.user_id t = u)
          \<longleftrightarrow> (\<exists>t. downloads s tid = Some t \<and> DownloadTask.user_id t = u)" for tid u
    by (cases "downloads s tid") (simp_all add: cancel_downloads)
  then show ?thesis
    using assms unfolding index_consistent_def by (simp add: cancel_frame)
qed

lemma run_ops_consistent:
  "index_consistent s \<Longrightarrow> adds_keep_owner ops s \<Longrightarrow> index_consistent (run_ops ops s)"
proof (induction ops arbitrary: s)
  case Nil
  then show ?case by simp
next
  case (Cons x xs)
  have "index_consistent (apply_op x s)"
  proof (cases x)
    case (AddDownload task)
    then show ?thesis using Cons.prems by (simp add: add_consistent)
  next
    case (RemoveDownload tid)
    then show ?thesis using Cons.prems by (simp add: remove_consistent)
  next
    case (CancelUserDownloads uid)
    then show ?thesis using Cons.prems by (simp add: cancel_consistent)
  qed
  then show ?case using Cons by simp
qed

text \<open>
  C10, as amended. In every state reached from the empty registry by \<open>add_download\<close>,
  \<open>remove_download\<close> and \<open>cancel_user_downloads\<close>, where no \<open>add_download\<close> reuses an
  id that is live under a different owner, a task id is a key of the dictionary with
  owner \<open>u\<close> exactly when it is in the index set of \<open>u\<close>.
\<close>

theorem registry_index_consistent:
  "adds_keep_owner ops (init_state :: 'v BotState) \<Longrightarrow>
     index_consistent (run_ops ops (init_state :: 'v BotState))"
  by (rule run_ops_consistent [OF init_consistent])

lemma demo_ops_keep_owner: "adds_keep_owner demo_ops (init_state :: unit BotState)"
  by (simp add: demo_ops_def init_state_def add_download_def mk_task_def
      remove_download_def cancel_downloads cancel_frame)

theorem registry_index_consistent_witness:
  "adds_keep_owner demo_ops (init_state :: unit BotState)
   \<and> index_consistent (run_ops demo_ops (init_state :: unit BotState))"
  using registry_index_consistent [of demo_ops, where 'v = unit] demo_ops_keep_owner by simp

text \<open>
  As stated for any sequence of operations the property fails: after a second
  \<open>add_download\<close> with a live id and another owner, the id is still in the first owner's
  set while the stored task belongs to the second.
\<close>

theorem registry_index_counterexample:
  "\<not> index_consistent
        (run_ops [AddDownload (mk_task ''a'' 1), AddDownload (mk_task ''a'' 2)]
           (init_state :: unit BotState))"
proof
  assume "index_consistent
        (run_ops [AddDownload (mk_task ''a'' 1), AddDownload (mk_task ''a'' 2)]
           (init_state :: unit BotState))"
  then have "(\<exists>task. downloads (run_ops [AddDownload (mk_task ''a'' 1), AddDownload (mk_task ''a'' 2)]
           (init_state :: unit BotState)) ''a'' = Some task \<and> DownloadTask.user_id task = 1)
     \<longleftrightarrow> ''a'' \<in> set (user_downloads (run_ops [AddDownload (mk_task ''a'' 1), AddDownload (mk_task ''a'' 2)]
           (init_state :: unit BotState)) 1)"
    unfolding index_consistent_def by blast
  then show False
    by (simp add: init_state_def add_download_def mk_task_def)
qed

lemma reg_state_consistent: "index_consistent reg_state"
  unfolding reg_state_def
  by (rule run_ops_consistent [OF init_consistent])
     (simp add: init_state_def add_download_def mk_task_def)

text \<open>
  C4 as stated, for every registry state, fails: \<open>cancel_user_downloads\<close> goes by the
  index set and never looks at \<open>user_id\<close>. After two \<open>add_download\<close> calls with one id
  and two owners the only stored task belongs to user 2; cancelling for user 1, who owns
  no task, returns 1 and sets the flag on the task of user 2.
\<close>

theorem cancel_other_owner_counterexample:
  "dom (downloads collide_state) = {''a''}
   \<and> downloads collide_state ''a'' = Some (mk_task ''a'' 2)
   \<and> DownloadTask.user_id (mk_task ''a'' 2) = 2
   \<and> \<not> cancelled (mk_task ''a'' 2)
   \<and> fst (cancel_user_downloads 1 collide_state) = 1
   \<and> downloads (snd (cancel_user_downloads 1 collide_state)) ''a''
        = Some ((mk_task ''a'' 2)\<lparr>cancelled := True\<rparr>)"
proof -
  have d: "downloads collide_state = [''a'' \<mapsto> mk_task ''a'' 2]"
    by (simp add: collide_state_def init_state_def add_download_def mk_task_def)
  have i: "user_downloads collide_state 1 = [''a'']"
    by (simp add: collide_state_def init_state_def add_download_def mk_task_def)
  show ?thesis
    by (simp add: d i cancel_user_downloads_def Let_def) (simp add: mk_task_def)
qed

lemma map_filter_eq_on:
  "(\<And>x. x \<in> set xs \<Longrightarrow> f x = g x) \<Longrightarrow> List.map_filter f xs = List.map_filter g xs"
  by (induction xs) (auto simp: List.map_filter_simps split: option.splits)

lemma set_map_filter: "set (List.map_filter f xs) = {y. \<exists>x \<in> set xs. f x = Some y}"
  by (induction xs) (auto simp: List.map_filter_simps split: option.splits)

lemma owned_ids:
  assumes "index_consistent s"
  shows "set (user_downloads s uid) =
           {tid. \<exists>task. downloads s tid = Some task \<and> DownloadTask.user_id task = uid}"
  using assms unfolding index_consistent_def by blast

lemma cancel_count_owned:
  assumes "index_consistent s" and "distinct (user_downloads s uid)"
  shows "fst (cancel_user_downloads uid s) =
           int (card {tid. \<exists>task. downloads s tid = Some task \<and> DownloadTask.user_id task = uid})"
proof -
  have "\<forall>tid \<in> set (user_downloads s uid). downloads s tid \<noteq> None"
    using owned_ids [OF assms(1), of uid] by auto
  then have "filter (\<lambda>tid. downloads s tid \<noteq> None) (user_downloads s uid) = user_downloads s uid"
    by (simp add: filter_id_conv)
  then have "fst (cancel_user_downloads uid s) = int (length (user_downloads s uid))"
    by (simp add: cancel_count get_user_downloads_def length_map_filter)
  also have "\<dots> = int (card (set (user_downloads s uid)))"
    using assms(2) by (simp add: distinct_card)
  finally show ?thesis by (simp add: owned_ids [OF assms(1)])
qed

lemma listing_owned:
  assumes "index_consistent s"
  shows "set (get_user_downloads uid s) =
           {task. \<exists>tid. downloads s tid = Some task \<and> DownloadTask.user_id task = uid}"
proof -
  have "set (get_user_downloads uid s) =
          {task. \<exists>tid \<in> set (user_downloads s uid). downloads s tid = Some task}"
    by (simp add: get_user_downloads_def set_map_filter)
  also have "\<dots> = {task. \<exists>tid. downloads s tid = Some task \<and> DownloadTask.user_id task = uid}"
    using assms unfolding index_consistent_def by (metis (no_types, lifting) option.inject)
  finally show ?thesis .
qed

lemma cancel_other_listing:
  assumes "index_consistent s" and "v \<noteq> uid"
  shows "get_user_downloads v (snd (cancel_user_downloads uid s)) = get_user_downloads v s"
  unfolding get_user_downloads_def cancel_frame
proof (rule map_filter_eq_on)
  fix tid assume "tid \<in> set (user_downloads s v)"
  then obtain task where "downloads s tid = Some task" "DownloadTask.user_id task = v"
    using assms(1) unfolding index_consistent_def by blast
  then show "downloads (snd (cancel_user_downloads uid s)) tid = downloads s tid"
    using cancel_owner [OF assms(1), of tid task uid] assms(2) by simp
qed

lemma apply_op_distinct:
  "\<forall>u. distinct (user_downloads s u) \<Longrightarrow> \<forall>u. distinct (user_downloads (apply_op x s) u)"
  by (cases x)
     (auto simp: add_download_def remove_download_def cancel_frame distinct_removeAll
        split: option.splits)

lemma run_ops_distinct:
  "\<forall>u. distinct (user_downloads s u) \<Longrightarrow> \<forall>u. distinct (user_downloads (run_ops ops s) u)"
proof (induction ops arbitrary: s)
  case Nil
  then show ?case by simp
next
  case (Cons x xs)
  show ?case unfolding run_ops.simps
    by (rule Cons.IH) (rule apply_op_distinct [OF Cons.prems])
qed

text \<open>
  C4, as amended. For every registry state in which a task id is a key of the dictionary
  with owner \<open>u\<close> exactly when it is in the index set of \<open>u\<close>, and every user:
  \<open>cancel_user_downloads\<close> returns the number of tasks owned by the user, sets
  \<open>cancelled\<close> on each of them and leaves every task of another owner as it is; it
  removes nothing, and the listing that follows is the same collection, which is the
  tasks owned by the user, each with the flag set; the listings of other users are
  unchanged. The index list of the user has no repetition, as the set it stands for.
\<close>

theorem cancel_user_downloads_owned:
  assumes "index_consistent s" and "distinct (user_downloads s uid)"
  shows "(let r = cancel_user_downloads uid s; s' = snd r
    in fst r = int (card {tid. \<exists>task. downloads s tid = Some task
                                 \<and> DownloadTask.user_id task = uid})
       \<and> (\<forall>tid task. downloads s tid = Some task \<longrightarrow>
             downloads s' tid =
               Some (if DownloadTask.user_id task = uid then task\<lparr>cancelled := True\<rparr> else task))
       \<and> dom (downloads s') = dom (downloads s)
       \<and> user_downloads s' = user_downloads s
       \<and> set (get_user_downloads uid s) =
            {task. \<exists>tid. downloads s tid = Some task \<and> DownloadTask.user_id task = uid}
       \<and> get_user_downloads uid s' = map (\<lambda>t. t\<lparr>cancelled := True\<rparr>) (get_user_downloads uid s)
       \<and> (\<forall>t \<in> set (get_user_downloads uid s'). cancelled t)
       \<and> (\<forall>v. v \<noteq> uid \<longrightarrow> get_user_downloads v s' = get_user_downloads v s)
       \<and> cache s' = cache s \<and> rate_limits s' = rate_limits s)"
  unfolding Let_def
proof (intro conjI)
  show "fst (cancel_user_downloads uid s) =
          int (card {tid. \<exists>task. downloads s tid = Some task \<and> DownloadTask.user_id task = uid})"
    by (rule cancel_count_owned [OF assms])
  show "\<forall>tid task. downloads s tid = Some task \<longrightarrow>
          downloads (snd (cancel_user_downloads uid s)) tid =
            Some (if DownloadTask.user_id task = uid then task\<lparr>cancelled := True\<rparr> else task)"
    using cancel_owner [OF assms(1)] by blast
  show "dom (downloads (snd (cancel_user_downloads uid s))) = dom (downloads s)"
    by (auto simp: cancel_downloads dom_def split: if_splits)
  show "set (get_user_downloads uid s) =
          {task. \<exists>tid. downloads s tid = Some task \<and> DownloadTask.user_id task = uid}"
    by (rule listing_owned [OF assms(1)])
  show "\<forall>t \<in> set (get_user_downloads uid (snd (cancel_user_downloads uid s))). cancelled t"
    by (simp add: cancel_listing)
  show "\<forall>v. v \<noteq> uid \<longrightarrow>
          get_user_downloads v (snd (cancel_user_downloads uid s)) = get_user_downloads v s"
    using cancel_other_listing [OF assms(1)] by blast
qed (simp_all add: cancel_listing cancel_frame)

lemma reg_state_index:
  "user_downloads reg_state 1 = [''b'', ''a'']" "user_downloads reg_state 2 = [''c'']"
  by (simp_all add: reg_state_def init_state_def add_download_def mk_task_def)

theorem cancel_user_downloads_owned_witness:
  "index_consistent reg_state \<and> distinct (user_downloads reg_state 1)
   \<and> downloads reg_state ''a'' = Some (mk_task ''a'' 1)
   \<and> downloads reg_state ''c'' = Some (mk_task ''c'' 2)
   \<and> get_user_downloads 1 reg_state = [mk_task ''b'' 1, mk_task ''a'' 1]
   \<and> fst (cancel_user_downloads 1 reg_state) = 2
   \<and> downloads (snd (cancel_user_downloads 1 reg_state)) ''a''
        = Some ((mk_task ''a'' 1)\<lparr>cancelled := True\<rparr>)
   \<and> downloads (snd (cancel_user_downloads 1 reg_state)) ''c'' = Some (mk_task ''c'' 2)
   \<and> get_user_downloads 2 (snd (cancel_user_downloads 1 reg_state)) = get_user_downloads 2 reg_state"
proof -
  have dis: "distinct (user_downloads reg_state 1)" by (simp add: reg_state_index)
  have a: "downloads reg_state ''a'' = Some (mk_task ''a'' 1)"
    and c: "downloads reg_state ''c'' = Some (mk_task ''c'' 2)"
    and b: "downloads reg_state ''b'' = Some (mk_task ''b'' 1)"
    by (simp_all add: reg_state_def init_state_def add_download_def mk_task_def)
  have l: "get_user_downloads 1 reg_state = [mk_task ''b'' 1, mk_task ''a'' 1]"
    by (simp add: get_user_downloads_def reg_state_index List.map_filter_simps a b)
  have n: "fst (cancel_user_downloads 1 reg_state) = 2"
    by (simp add: cancel_count l)
  show ?thesis
    using cancel_user_downloads_owned [OF reg_state_consistent dis] reg_state_consistent dis a c l n
    by (simp add: Let_def mk_task_def)
qed

text \<open>
  C3 as stated fails: \<open>add_download\<close> of a task whose id is live raises nothing and
  changes the registry, where the specification's \<open>add\<close> answers \<open>DuplicateTaskError\<close>.
\<close>

theorem add_download_duplicate_counterexample:
  "DownloadTask.task_id (mk_task ''a'' 2) \<in> dom (downloads reg_state)
   \<and> add_download_spec (mk_task ''a'' 2) reg_state = Inl DuplicateTaskError
   \<and> add_download (mk_task ''a'' 2) reg_state \<noteq> reg_state
   \<and> downloads (add_download (mk_task ''a'' 2) reg_state) ''a'' = Some (mk_task ''a'' 2)
   \<and> downloads reg_state ''a'' = Some (mk_task ''a'' 1)"
proof -
  have d: "downloads reg_state ''a'' = Some (mk_task ''a'' 1)"
    by (simp add: reg_state_def init_state_def add_download_def mk_task_def)
  have n: "downloads (add_download (mk_task ''a'' 2) reg_state) ''a'' = Some (mk_task ''a'' 2)"
    by (simp add: add_download_def mk_task_def)
  have "mk_task ''a'' 2 \<noteq> mk_task ''a'' 1" by (simp add: mk_task_def)
  with d n have "add_download (mk_task ''a'' 2) reg_state \<noteq> reg_state" by auto
  moreover have "DownloadTask.task_id (mk_task ''a'' 2) \<in> dom (downloads reg_state)"
    using d by (auto simp: mk_task_def)
  ultimately show ?thesis using d n by (simp add: add_download_spec_def)
qed

text \<open>
  C3, as amended. For every registry state that holds a live task with a given id,
  \<open>add_download\<close> of a new task with that id does not fail: the new task replaces the
  stored one, the id is added to the new owner's index set, and every other entry of the
  dictionary, every other index set, the cache and the rate limits are unchanged.
\<close>

theorem add_download_overwrites:
  assumes "downloads s (DownloadTask.task_id task) = Some old"
  shows "downloads (add_download task s) (DownloadTask.task_id task) = Some task
     \<and> (\<forall>tid. tid \<noteq> DownloadTask.task_id task \<longrightarrow>
           downloads (add_download task s) tid = downloads s tid)
     \<and> set (user_downloads (add_download task s) (DownloadTask.user_id task))
         = insert (DownloadTask.task_id task) (set (user_downloads s (DownloadTask.user_id task)))
     \<and> (\<forall>uid. uid \<noteq> DownloadTask.user_id task \<longrightarrow>
           user_downloads (add_download task s) uid = user_downloads s uid)
     \<and> cache (add_download task s) = cache s
     \<and> rate_limits (add_download task s) = rate_limits s
     \<and> add_download_spec task s = Inl DuplicateTaskError"
  using assms by (auto simp: add_download_def add_download_spec_def)

theorem add_download_overwrites_witness:
  "downloads reg_state (DownloadTask.task_id (mk_task ''a'' 2)) = Some (mk_task ''a'' 1)
   \<and> downloads (add_download (mk_task ''a'' 2) reg_state) ''a'' = Some (mk_task ''a'' 2)
   \<and> downloads (add_download (mk_task ''a'' 2) reg_state) ''b'' = downloads reg_state ''b''
   \<and> ''a'' \<in> set (user_downloads (add_download (mk_task ''a'' 2) reg_state) 2)
   \<and> user_downloads (add_download (mk_task ''a'' 2) reg_state) 1 = user_downloads reg_state 1
   \<and> ''a'' \<in> set (user_downloads reg_state 1)"
proof -
  have d: "downloads reg_state (DownloadTask.task_id (mk_task ''a'' 2)) = Some (mk_task ''a'' 1)"
    by (simp add: reg_state_def init_state_def add_download_def mk_task_def)
  have i: "''a'' \<in> set (user_downloads reg_state 1)"
    by (simp add: reg_state_def init_state_def add_download_def mk_task_def)
  show ?thesis
    using add_download_overwrites [OF d] d i by (simp add: mk_task_def)
qed

lemma entry_untouched_keeps:
  "entry_untouched key ops s \<Longrightarrow> cache (run_cache_ops ops s) key = cache s key"
  by (induction ops arbitrary: s) auto

lemma other_key_untouched:
  "k \<noteq> key \<Longrightarrow> cache (apply_cache_op (CacheSet t k v) s) key = cache s key"
  "k \<noteq> key \<Longrightarrow> cache (apply_cache_op (CacheGet t k ttl) s) key = cache s key"
  by (auto simp: set_cached_def get_cached_def split: option.splits)

text \<open>
  C5. After \<open>set_cached key v\<close> at time \<open>t0\<close> and any operations that leave the entry
  of \<open>key\<close> as it is, \<open>get_cached key ttl\<close> at time \<open>r\<close> returns \<open>v\<close> and changes
  nothing when \<open>r - t0 < ttl\<close>, and returns \<open>None\<close> and deletes the entry when
  \<open>r - t0 \<ge> ttl\<close>.
\<close>

theorem cache_get_after_set:
  assumes "entry_untouched key ops (set_cached t0 key v s)"
  shows "(let s2 = run_cache_ops ops (set_cached t0 key v s)
          in get_cached r key ttl s2 =
               (if r - t0 < real_of_int ttl then (Some v, s2)
                else (None, s2\<lparr>cache := (cache s2)(key := None)\<rparr>)))"
proof -
  have "cache (run_cache_ops ops (set_cached t0 key v s)) key = Some (v, t0)"
    using entry_untouched_keeps [OF assms] by (simp add: set_cached_def)
  then show ?thesis by (simp add: get_cached_def Let_def)
qed

theorem cache_get_after_set_witness:
  "entry_untouched ''k'' cache_demo_ops (set_cached 10 ''k'' 42 init_state)
   \<and> fst (get_cached 309 ''k'' 300 (run_cache_ops cache_demo_ops (set_cached 10 ''k'' 42 init_state)))
        = Some 42
   \<and> fst (get_cached 310 ''k'' 300 (run_cache_ops cache_demo_ops (set_cached 10 ''k'' 42 init_state)))
        = None
   \<and> cache (snd (get_cached 310 ''k'' 300
        (run_cache_ops cache_demo_ops (set_cached 10 ''k'' 42 init_state)))) ''k'' = None"
proof -
  have u: "entry_untouched ''k'' cache_demo_ops (set_cached 10 ''k'' 42 init_state)"
    by (simp add: cache_demo_ops_def set_cached_def get_cached_def init_state_def)
  show ?thesis
    using cache_get_after_set [OF u, of 309 300] cache_get_after_set [OF u, of 310 300] u
    by (simp add: Let_def)
qed

text \<open>
  A read with a shorter time to live is one of the operations that do not leave the entry
  as it is: it evicts, and a later read with a longer time to live finds nothing.
\<close>

lemma short_ttl_read_evicts:
  "fst (get_cached 6 ''k'' 100
         (run_cache_ops [CacheGet 5 ''k'' 1] (set_cached 0 ''k'' (42::int) init_state))) = None"
  by (simp add: set_cached_def get_cached_def init_state_def)

section \<open>The progress tracker: results\<close>

lemma snapshot_merge_args:
  "snapshot (merge_args a tr) =
     ((case new_status a of None \<Rightarrow> status tr | Some v \<Rightarrow> v), lang_code tr,
      (case new_progress a of None \<Rightarrow> progress tr | Some v \<Rightarrow> v),
      (case new_downloaded_bytes a of None \<Rightarrow> downloaded_bytes tr | Some v \<Rightarrow> v),
      (case new_total_bytes a of None \<Rightarrow> total_bytes tr | Some v \<Rightarrow> v),
      (case new_speed a of None \<Rightarrow> speed tr | Some v \<Rightarrow> v),
      (case new_eta a of None \<Rightarrow> eta tr | Some v \<Rightarrow> v), quality tr)"
  by (simp add: snapshot_def merge_args_def)

lemma format_snapshot_cong:
  "snapshot tr = snapshot tr' \<Longrightarrow> format_progress_message T tr = format_progress_message T tr'"
  by (simp add: format_progress_message_def snapshot_def)

lemma snapshot_merge_cong:
  "snapshot tr = snapshot tr' \<Longrightarrow> snapshot (merge_args a tr) = snapshot (merge_args a tr')"
  unfolding snapshot_merge_args by (simp add: snapshot_def cong: option.case_cong)

lemma merge_args_private:
  "last_text (merge_args a tr) = last_text tr"
  "last_update (merge_args a tr) = last_update tr"
  "update_interval (merge_args a tr) = update_interval tr"
  "chat_id (merge_args a tr) = chat_id tr"
  "message_id (merge_args a tr) = message_id tr"
  by (simp_all add: merge_args_def)

lemma snapshot_sent:
  "snapshot (tr\<lparr>last_text := x, last_update := y\<rparr>) = snapshot tr"
  by (simp add: snapshot_def)

lemma update_unfold:
  "update T a t r tr =
     (if \<not> force a \<and> t - last_update tr < update_interval tr then (merge_args a tr, [])
      else if format_progress_message T (merge_args a tr) = last_text tr
      then (merge_args a tr, [])
      else (case r of
              EditOk \<Rightarrow>
                ((merge_args a tr)\<lparr>last_text := format_progress_message T (merge_args a tr),
                                   last_update := t\<rparr>,
                 [EditMessageText (chat_id tr) (message_id tr)
                    (format_progress_message T (merge_args a tr))])
            | MessageNotModified \<Rightarrow>
                (merge_args a tr,
                 [EditMessageText (chat_id tr) (message_id tr)
                    (format_progress_message T (merge_args a tr))])
            | FloodWait n \<Rightarrow>
                (merge_args a tr,
                 [EditMessageText (chat_id tr) (message_id tr)
                    (format_progress_message T (merge_args a tr)), LogWarning, Sleep n])
            | OtherError \<Rightarrow>
                (merge_args a tr,
                 [EditMessageText (chat_id tr) (message_id tr)
                    (format_progress_message T (merge_args a tr)), LogError])))"
  unfolding update_def Let_def merge_args_private ..

lemma edit_texts_append: "edit_texts (xs @ ys) = edit_texts xs @ edit_texts ys"
  by (induction xs rule: edit_texts.induct) simp_all

lemma update_snapshot:
  "snapshot (fst (update T a t r tr)) = snapshot (merge_args a tr)"
  by (cases r) (simp_all add: update_unfold snapshot_sent)

lemma update_private_debounced:
  "\<not> force a \<and> t - last_update tr < update_interval tr \<Longrightarrow>
     update T a t r tr = (merge_args a tr, [])"
  by (simp add: update_unfold)

lemma update_same_text:
  "format_progress_message T (merge_args a tr) = last_text tr \<Longrightarrow>
     update T a t r tr = (merge_args a tr, [])"
  by (simp add: update_unfold)

lemma update_edit_texts:
  "edit_texts (snd (update T a t r tr)) = [] \<or>
   edit_texts (snd (update T a t r tr)) = [format_progress_message T (merge_args a tr)]"
  by (cases r) (simp_all add: update_unfold)

lemma update_no_edit_no_action:
  "edit_texts (snd (update T a t r tr)) = [] \<Longrightarrow> snd (update T a t r tr) = []"
  by (cases r) (auto simp: update_unfold split: if_splits)

lemma update_accepted:
  "edit_texts (snd (update T a t EditOk tr)) \<noteq> [] \<Longrightarrow>
     last_text (fst (update T a t EditOk tr)) = format_progress_message T (merge_args a tr)"
  by (auto simp: update_unfold split: if_splits)

lemma merge_all_snapshot_cong:
  "snapshot tr = snapshot tr' \<Longrightarrow> snapshot (merge_all cs tr) = snapshot (merge_all cs tr')"
proof (induction cs arbitrary: tr tr')
  case Nil
  then show ?case by simp
next
  case (Cons c cs)
  obtain a t r where c: "c = (a, t, r)" by (cases c)
  show ?case unfolding c merge_all.simps
    by (rule Cons.IH) (rule snapshot_merge_cong [OF Cons.prems])
qed

lemma run_updates_snapshot:
  "snapshot (fst (run_updates T cs tr)) = snapshot (merge_all cs tr)"
proof (induction cs arbitrary: tr)
  case Nil
  then show ?case by simp
next
  case (Cons c cs)
  obtain a t r where c: "c = (a, t, r)" by (cases c)
  have "snapshot (fst (run_updates T cs (fst (update T a t r tr))))
          = snapshot (merge_all cs (fst (update T a t r tr)))"
    by (rule Cons.IH)
  also have "\<dots> = snapshot (merge_all cs (merge_args a tr))"
    by (rule merge_all_snapshot_cong) (rule update_snapshot)
  finally show ?case using c by simp
qed

lemma later_edit_text:
  assumes "txt \<in> set (edit_texts (snd (update T a t r (fst (run_updates T cs tr)))))"
  shows "txt = format_progress_message T (merge_args a (merge_all cs tr))"
proof -
  have "txt = format_progress_message T (merge_args a (fst (run_updates T cs tr)))"
    using assms update_edit_texts [of T a t r "fst (run_updates T cs tr)"] by auto
  also have "\<dots> = format_progress_message T (merge_args a (merge_all cs tr))"
    by (intro format_snapshot_cong snapshot_merge_cong run_updates_snapshot)
  finally show ?thesis .
qed

lemma update_records:
  "r = EditOk \<and> edit_texts (snd (update T a t r tr)) \<noteq> [] \<Longrightarrow>
     last_update (fst (update T a t r tr)) = t
     \<and> last_text (fst (update T a t r tr)) = format_progress_message T (merge_args a tr)"
  by (auto simp: update_unfold split: if_splits)

lemma update_keeps:
  "r \<noteq> EditOk \<or> edit_texts (snd (update T a t r tr)) = [] \<Longrightarrow>
     last_update (fst (update T a t r tr)) = last_update tr
     \<and> last_text (fst (update T a t r tr)) = last_text tr"
  by (cases r) (auto simp: update_unfold merge_args_private split: if_splits)

lemma update_last_update:
  "last_update (fst (update T a t r tr)) =
     (if r = EditOk \<and> edit_texts (snd (update T a t r tr)) \<noteq> [] then t else last_update tr)"
  using update_records [of r T a t tr] update_keeps [of r T a t tr] by auto

lemma update_interval_same:
  "update_interval (fst (update T a t r tr)) = update_interval tr"
  by (cases r) (simp_all add: update_unfold merge_args_private)

lemma run_updates_interval:
  "update_interval (fst (run_updates T cs tr)) = update_interval tr"
proof (induction cs arbitrary: tr)
  case Nil
  then show ?case by simp
next
  case (Cons c cs)
  obtain a t r where c: "c = (a, t, r)" by (cases c)
  show ?case unfolding c by (simp add: Cons.IH update_interval_same)
qed

lemma run_updates_last_update:
  "last_update (fst (run_updates T cs tr)) =
     last_actual_edit (last_update tr) (update_trace T cs tr)"
proof (induction cs arbitrary: tr)
  case Nil
  then show ?case by simp
next
  case (Cons c cs)
  obtain a t r where c: "c = (a, t, r)" by (cases c)
  have "last_update (fst (run_updates T (c # cs) tr)) =
          last_actual_edit (last_update (fst (update T a t r tr)))
            (update_trace T cs (fst (update T a t r tr)))"
    unfolding c by (simp add: Cons.IH)
  also have "\<dots> = last_actual_edit (last_update tr) (update_trace T (c # cs) tr)"
    unfolding c by (simp add: update_last_update)
  finally show ?case .
qed

lemma debounce_since_last_edit:
  assumes "\<not> force a"
    and "t - last_actual_edit (last_update tr) (update_trace T cs tr) < update_interval tr"
  shows "snd (update T a t r (fst (run_updates T cs tr))) = []"
proof -
  have "t - last_update (fst (run_updates T cs tr)) < update_interval (fst (run_updates T cs tr))"
    using assms(2) by (simp add: run_updates_last_update run_updates_interval)
  with assms(1) show ?thesis by (simp add: update_private_debounced)
qed

text \<open>
  C6. For every tracker state and every \<open>update\<close> call, whatever the clock and the
  client's answer: the snapshot after the call has the provided fields replaced and the
  omitted ones unchanged. An edit that the client accepts records its clock reading in
  \<open>last_update\<close> and its text in \<open>last_text\<close>, and a call without an accepted edit
  leaves both, so that after any sequence of calls \<open>last_update\<close> is the time of the
  last actual edit. When \<open>force\<close> is false and less than \<open>update_interval\<close> has passed
  since then, the call issues no action at all. The text of any edit issued by a call
  that follows any sequence of earlier calls is rendered from the snapshot in which the
  arguments of all the calls, this one included, are merged.
\<close>

theorem update_merge_and_debounce:
  "snapshot (fst (update T a t r tr)) =
     ((case new_status a of None \<Rightarrow> status tr | Some v \<Rightarrow> v), lang_code tr,
      (case new_progress a of None \<Rightarrow> progress tr | Some v \<Rightarrow> v),
      (case new_downloaded_bytes a of None \<Rightarrow> downloaded_bytes tr | Some v \<Rightarrow> v),
      (case new_total_bytes a of None \<Rightarrow> total_bytes tr | Some v \<Rightarrow> v),
      (case new_speed a of None \<Rightarrow> speed tr | Some v \<Rightarrow> v),
      (case new_eta a of None \<Rightarrow> eta tr | Some v \<Rightarrow> v), quality tr)
   \<and> (\<not> force a \<and> t - last_update tr < update_interval tr \<longrightarrow>
        snd (update T a t r tr) = []
        \<and> last_text (fst (update T a t r tr)) = last_text tr
        \<and> last_update (fst (update T a t r tr)) = last_update tr)
   \<and> (\<forall>txt \<in> set (edit_texts (snd (update T a t r (fst (run_updates T cs tr))))).
        txt = format_progress_message T (merge_args a (merge_all cs tr)))
   \<and> (r = EditOk \<and> edit_texts (snd (update T a t r tr)) \<noteq> [] \<longrightarrow>
        last_update (fst (update T a t r tr)) = t
        \<and> last_text (fst (update T a t r tr)) = format_progress_message T (merge_args a tr))
   \<and> (r \<noteq> EditOk \<or> edit_texts (snd (update T a t r tr)) = [] \<longrightarrow>
        last_update (fst (update T a t r tr)) = last_update tr
        \<and> last_text (fst (update T a t r tr)) = last_text tr)
   \<and> update_interval (fst (run_updates T cs tr)) = update_interval tr
   \<and> last_update (fst (run_updates T cs tr)) =
        last_actual_edit (last_update tr) (update_trace T cs tr)
   \<and> (\<not> force a
        \<and> t - last_actual_edit (last_update tr) (update_trace T cs tr) < update_interval tr \<longrightarrow>
        snd (update T a t r (fst (run_updates T cs tr))) = [])"
proof (intro conjI)
  show "snapshot (fst (update T a t r tr)) =
     ((case new_status a of None \<Rightarrow> status tr | Some v \<Rightarrow> v), lang_code tr,
      (case new_progress a of None \<Rightarrow> progress tr | Some v \<Rightarrow> v),
      (case new_downloaded_bytes a of None \<Rightarrow> downloaded_bytes tr | Some v \<Rightarrow> v),
      (case new_total_bytes a of None \<Rightarrow> total_bytes tr | Some v \<Rightarrow> v),
      (case new_speed a of None \<Rightarrow> speed tr | Some v \<Rightarrow> v),
      (case new_eta a of None \<Rightarrow> eta tr | Some v \<Rightarrow> v), quality tr)"
    unfolding update_snapshot by (rule snapshot_merge_args)
  show "\<not> force a \<and> t - last_update tr < update_interval tr \<longrightarrow>
        snd (update T a t r tr) = []
        \<and> last_text (fst (update T a t r tr)) = last_text tr
        \<and> last_update (fst (update T a t r tr)) = last_update tr"
    by (simp add: update_private_debounced merge_args_private)
  show "\<forall>txt \<in> set (edit_texts (snd (update T a t r (fst (run_updates T cs tr))))).
        txt = format_progress_message T (merge_args a (merge_all cs tr))"
    using later_edit_text by blast
  show "r = EditOk \<and> edit_texts (snd (update T a t r tr)) \<noteq> [] \<longrightarrow>
        last_update (fst (update T a t r tr)) = t
        \<and> last_text (fst (update T a t r tr)) = format_progress_message T (merge_args a tr)"
    using update_records by blast
  show "r \<noteq> EditOk \<or> edit_texts (snd (update T a t r tr)) = [] \<longrightarrow>
        last_update (fst (update T a t r tr)) = last_update tr
        \<and> last_text (fst (update T a t r tr)) = last_text tr"
    using update_keeps by blast
  show "update_interval (fst (run_updates T cs tr)) = update_interval tr"
    by (rule run_updates_interval)
  show "last_update (fst (run_updates T cs tr)) =
        last_actual_edit (last_update tr) (update_trace T cs tr)"
    by (rule run_updates_last_update)
  show "\<not> force a
        \<and> t - last_actual_edit (last_update tr) (update_trace T cs tr) < update_interval tr \<longrightarrow>
        snd (update T a t r (fst (run_updates T cs tr))) = []"
    using debounce_since_last_edit by blast
qed

theorem update_merge_and_debounce_witness:
  "\<not> force (progress_args 10)
   \<and> 1 - last_update demo_tracker < update_interval demo_tracker
   \<and> snd (update probe_texts (progress_args 10) 1 EditOk demo_tracker) = []
   \<and> ''download.progress 10'' \<in> set (edit_texts (snd (update probe_texts (status_args DOWNLOADING True)
          (3/2) EditOk (fst (run_updates probe_texts [(progress_args 10, 1, EditOk)] demo_tracker)))))
   \<and> format_progress_message probe_texts
        (merge_args (status_args DOWNLOADING True)
           (merge_all [(progress_args 10, 1, EditOk)] demo_tracker)) = ''download.progress 10''
   \<and> update_trace probe_texts [(status_args DOWNLOADING True, 100, EditOk)] demo_tracker
        = [(100, EditOk, [EditMessageText 5 9 ''download.progress''])]
   \<and> last_update (fst (update probe_texts (status_args DOWNLOADING True) 100 EditOk demo_tracker)) = 100
   \<and> last_update (fst (update probe_texts (status_args DOWNLOADING True) 100 (FloodWait 3) demo_tracker)) = 0
   \<and> last_actual_edit (last_update demo_tracker)
        (update_trace probe_texts [(status_args DOWNLOADING True, 100, EditOk)] demo_tracker) = 100
   \<and> (201/2) - (100::real) < update_interval demo_tracker
   \<and> snd (update probe_texts (progress_args 10) (201/2) EditOk
          (fst (run_updates probe_texts [(status_args DOWNLOADING True, 100, EditOk)] demo_tracker))) = []
   \<and> edit_texts (snd (update probe_texts (progress_args 10) 102 EditOk
          (fst (run_updates probe_texts [(status_args DOWNLOADING True, 100, EditOk)] demo_tracker))))
        = [''download.progress 10'']"
proof -
  have e: "edit_texts (snd (update probe_texts (status_args DOWNLOADING True)
          (3/2) EditOk (fst (run_updates probe_texts [(progress_args 10, 1, EditOk)] demo_tracker))))
       = [''download.progress 10'']"
    by (simp add: update_unfold merge_args_def progress_args_def status_args_def no_args_def
        demo_tracker_def probe_texts_def format_progress_message_def snapshot_def)
  have tr: "update_trace probe_texts [(status_args DOWNLOADING True, 100, EditOk)] demo_tracker
        = [(100, EditOk, [EditMessageText 5 9 ''download.progress''])]"
    by (simp add: update_unfold merge_args_def status_args_def no_args_def
        demo_tracker_def probe_texts_def format_progress_message_def snapshot_def)
  have fw: "edit_texts (snd (update probe_texts (status_args DOWNLOADING True) 100 (FloodWait 3) demo_tracker))
        = [''download.progress'']"
    by (simp add: update_unfold merge_args_def status_args_def no_args_def
        demo_tracker_def probe_texts_def format_progress_message_def snapshot_def)
  have ok: "edit_texts (snd (update probe_texts (status_args DOWNLOADING True) 100 EditOk demo_tracker))
        = [''download.progress'']"
    by (simp add: update_unfold merge_args_def status_args_def no_args_def
        demo_tracker_def probe_texts_def format_progress_message_def snapshot_def)
  have late: "edit_texts (snd (update probe_texts (progress_args 10) 102 EditOk
          (fst (run_updates probe_texts [(status_args DOWNLOADING True, 100, EditOk)] demo_tracker))))
        = [''download.progress 10'']"
    by (simp add: update_unfold merge_args_def progress_args_def status_args_def no_args_def
        demo_tracker_def probe_texts_def format_progress_message_def snapshot_def)
  have nf: "\<not> force (progress_args 10)" by (simp add: progress_args_def no_args_def)
  have iv: "update_interval demo_tracker = 2" "last_update demo_tracker = 0"
    by (simp_all add: demo_tracker_def)
  show ?thesis
    using update_merge_and_debounce [of probe_texts "progress_args 10" 1 EditOk demo_tracker]
      update_merge_and_debounce [of probe_texts "status_args DOWNLOADING True" "3/2" EditOk
        demo_tracker "[(progress_args 10, 1, EditOk)]"]
      update_merge_and_debounce [of probe_texts "status_args DOWNLOADING True" 100 EditOk demo_tracker]
      update_merge_and_debounce [of probe_texts "status_args DOWNLOADING True" 100 "FloodWait 3"
        demo_tracker]
      update_merge_and_debounce [of probe_texts "progress_args 10" "201/2" EditOk demo_tracker
        "[(status_args DOWNLOADING True, 100, EditOk)]"]
      e tr fw ok late nf iv
    by simp
qed

text \<open>
  C7 as stated fails: the last sent text is recorded only when the edit is accepted. A
  forced call whose edit is answered by \<open>FloodWait\<close> leaves it unchanged, and a second
  call with the identical text requests the same edit again: two edits for one text.
\<close>

theorem update_two_edits_counterexample:
  "format_progress_message demo_texts (merge_args (no_args True) demo_tracker)
     = format_progress_message demo_texts
         (merge_args (no_args True) (fst (update demo_texts (no_args True) 1 (FloodWait 5) demo_tracker)))
   \<and> edit_texts (snd (run_updates demo_texts
         [(no_args True, 1, FloodWait 5), (no_args True, 7, EditOk)] demo_tracker))
       = [''common.processing'', ''common.processing'']"
  by (simp add: update_unfold merge_args_def no_args_def demo_tracker_def demo_texts_def
      format_progress_message_def)

text \<open>
  C7, as amended. For every tracker state, an \<open>update\<close> call whose candidate text is
  identical to the last successfully sent text issues no action, even when forced; hence
  of two consecutive \<open>update\<close> calls with identical resulting text, the first of which
  has its edit (if it issues one) accepted, at most one issues an edit, and the second
  issues nothing once the first has sent the text.
\<close>

theorem update_same_text_once:
  "(format_progress_message T (merge_args a tr) = last_text tr \<longrightarrow>
      update T a t r tr = (merge_args a tr, []))
   \<and> (format_progress_message T (merge_args a2 (merge_args a1 tr))
         = format_progress_message T (merge_args a1 tr) \<longrightarrow>
       length (edit_texts (snd (update T a1 t1 EditOk tr)
                 @ snd (update T a2 t2 r2 (fst (update T a1 t1 EditOk tr))))) \<le> 1
       \<and> (edit_texts (snd (update T a1 t1 EditOk tr)) \<noteq> [] \<longrightarrow>
            snd (update T a2 t2 r2 (fst (update T a1 t1 EditOk tr))) = []))"
proof (intro conjI impI)
  assume "format_progress_message T (merge_args a tr) = last_text tr"
  then show "update T a t r tr = (merge_args a tr, [])" by (rule update_same_text)
next
  let ?u1 = "update T a1 t1 EditOk tr"
  let ?u2 = "update T a2 t2 r2 (fst ?u1)"
  assume same: "format_progress_message T (merge_args a2 (merge_args a1 tr))
         = format_progress_message T (merge_args a1 tr)"
  have cand: "format_progress_message T (merge_args a2 (fst ?u1))
         = format_progress_message T (merge_args a1 tr)"
    using same format_snapshot_cong [OF snapshot_merge_cong [OF update_snapshot]] by simp
  have second: "snd ?u2 = []" if "edit_texts (snd ?u1) \<noteq> []"
  proof -
    have "last_text (fst ?u1) = format_progress_message T (merge_args a1 tr)"
      using that by (rule update_accepted)
    with cand show ?thesis by (simp add: update_same_text)
  qed
  show "edit_texts (snd ?u1) \<noteq> [] \<Longrightarrow> snd ?u2 = []" by (rule second)
  show "length (edit_texts (snd ?u1 @ snd ?u2)) \<le> 1"
  proof (cases "edit_texts (snd ?u1) = []")
    case True
    then show ?thesis
      using update_edit_texts [of T a2 t2 r2 "fst ?u1"] by (auto simp: edit_texts_append)
  next
    case False
    then show ?thesis
      using second update_edit_texts [of T a1 t1 EditOk tr] by (auto simp: edit_texts_append)
  qed
qed

theorem update_same_text_once_witness:
  "format_progress_message demo_texts (merge_args (no_args True) (merge_args (no_args True) demo_tracker))
     = format_progress_message demo_texts (merge_args (no_args True) demo_tracker)
   \<and> edit_texts (snd (update demo_texts (no_args True) 1 EditOk demo_tracker)) = [''common.processing'']
   \<and> snd (update demo_texts (no_args True) 7 EditOk
            (fst (update demo_texts (no_args True) 1 EditOk demo_tracker))) = []
   \<and> format_progress_message demo_texts
        (merge_args (no_args True) (demo_tracker\<lparr>last_text := ''common.processing''\<rparr>))
       = last_text (demo_tracker\<lparr>last_text := ''common.processing''\<rparr>)
   \<and> snd (update demo_texts (no_args True) 9 EditOk (demo_tracker\<lparr>last_text := ''common.processing''\<rparr>)) = []"
proof -
  have c: "format_progress_message demo_texts (merge_args (no_args True) (merge_args (no_args True) demo_tracker))
     = format_progress_message demo_texts (merge_args (no_args True) demo_tracker)"
    by (simp add: merge_args_def no_args_def demo_tracker_def demo_texts_def
        format_progress_message_def)
  have e: "edit_texts (snd (update demo_texts (no_args True) 1 EditOk demo_tracker)) = [''common.processing'']"
    by (simp add: update_unfold merge_args_def no_args_def demo_tracker_def demo_texts_def
        format_progress_message_def)
  have l: "format_progress_message demo_texts
        (merge_args (no_args True) (demo_tracker\<lparr>last_text := ''common.processing''\<rparr>))
       = last_text (demo_tracker\<lparr>last_text := ''common.processing''\<rparr>)"
    by (simp add: merge_args_def no_args_def demo_tracker_def demo_texts_def
        format_progress_message_def)
  show ?thesis
    using update_same_text_once [where T = demo_texts and a = "no_args True"
        and tr = "demo_tracker\<lparr>last_text := ''common.processing''\<rparr>" and t = 9 and r = EditOk
        and ?a1.0 = "no_args True" and ?a2.0 = "no_args True" and ?t1.0 = 1 and ?t2.0 = 7
        and ?r2.0 = EditOk]
      update_same_text_once [where T = demo_texts and a = "no_args True"
        and tr = demo_tracker and t = 9 and r = EditOk
        and ?a1.0 = "no_args True" and ?a2.0 = "no_args True" and ?t1.0 = 1 and ?t2.0 = 7
        and ?r2.0 = EditOk] c e l
    by simp
qed

text \<open>
  C9. For every tracker state, text and answer of the client, \<open>complete\<close> issues exactly
  one edit request, to the tracker's chat and message with exactly the given text, and
  changes no field of the tracker. It takes no clock reading and compares nothing: the
  edit is issued also when the text is the last sent text and right after any \<open>update\<close>,
  and two calls in a row send the text twice.
\<close>

theorem complete_unconditional:
  "fst (complete text r tr) = tr
   \<and> edit_texts (snd (complete text r tr)) = [text]
   \<and> hd (snd (complete text r tr)) = EditMessageText (chat_id tr) (message_id tr) text
   \<and> edit_texts (snd (complete (last_text tr) r tr)) = [last_text tr]
   \<and> edit_texts (snd (complete text r2 (fst (update T a t r tr)))) = [text]
   \<and> edit_texts (snd (complete text r tr) @ snd (complete text r2 (fst (complete text r tr))))
       = [text, text]"
  by (cases r; cases r2) (simp_all add: complete_def)

section \<open>The progress hook: results\<close>

text \<open>
  On an event whose byte counts are numbers the hook schedules the update that C8
  describes, and it does so on \<open>finished\<close> and only logs on \<open>error\<close>.
\<close>

lemma ytdlp_hook_numeric:
  assumes "d ''status'' = Some (PyStr ''downloading'')"
    and "py_get d ''downloaded_bytes'' (PyNum 0) = PyNum dl"
    and "py_or (py_get d ''total_bytes'' PyNone) (py_get d ''total_bytes_estimate'' (PyNum 0))
           = PyNum tot"
  shows "ytdlp_hook d =
     Inr [RunCoroutineThreadsafe
           \<lparr>upd_status = Some DOWNLOADING,
            upd_progress = PyNum (if tot > 0 then dl / tot * 100 else 0),
            upd_downloaded_bytes = PyNum dl, upd_total_bytes = PyNum tot,
            upd_speed = py_or (py_get d ''speed'' (PyNum 0)) (PyNum 0),
            upd_eta = py_or (py_get d ''eta'' (PyNum 0)) (PyNum 0), upd_force = False\<rparr>]"
  using assms by (simp add: ytdlp_hook_def Let_def py_get_def)

lemma ytdlp_hook_finished:
  "d ''status'' = Some (PyStr ''finished'') \<Longrightarrow>
   ytdlp_hook d =
     Inr [RunCoroutineThreadsafe
           \<lparr>upd_status = Some MERGING, upd_progress = PyNum 100,
            upd_downloaded_bytes = PyNone, upd_total_bytes = PyNone,
            upd_speed = PyNone, upd_eta = PyNone, upd_force = True\<rparr>]"
  by (simp add: ytdlp_hook_def Let_def py_get_def)

lemma ytdlp_hook_error:
  "d ''status'' = Some (PyStr ''error'') \<Longrightarrow>
   ytdlp_hook d = Inr [LogYtdlpError (py_get d ''error'' (PyStr ''Unknown error''))]"
  by (simp add: ytdlp_hook_def Let_def py_get_def)

text \<open>
  C8. A \<open>downloading\<close> event in which the total and its estimate are both \<open>None\<close>
  (unknown) is guarded for \<open>total_bytes\<close>, \<open>speed\<close> and \<open>eta\<close>, but not for the
  estimate: \<open>total\<close> is \<open>None\<close>, the comparison \<open>total > 0\<close> raises, and no update
  is scheduled, where the claim has progress \<open>0\<close>. When the estimate is missing instead
  of \<open>None\<close> the default \<open>0\<close> applies and the update is scheduled.
\<close>

theorem ytdlp_hook_none_estimate:
  "ytdlp_hook [''status'' \<mapsto> PyStr ''downloading'', ''downloaded_bytes'' \<mapsto> PyNum 1024,
               ''total_bytes'' \<mapsto> PyNone, ''total_bytes_estimate'' \<mapsto> PyNone,
               ''speed'' \<mapsto> PyNone, ''eta'' \<mapsto> PyNone]
     = Inl TypeError"
  by (simp add: ytdlp_hook_def Let_def py_get_def py_or_def)

lemma ytdlp_hook_none_total_only:
  "ytdlp_hook [''status'' \<mapsto> PyStr ''downloading'', ''downloaded_bytes'' \<mapsto> PyNum 1024,
               ''total_bytes'' \<mapsto> PyNone, ''speed'' \<mapsto> PyNone, ''eta'' \<mapsto> PyNone]
     = Inr [RunCoroutineThreadsafe
           \<lparr>upd_status = Some DOWNLOADING, upd_progress = PyNum 0,
            upd_downloaded_bytes = PyNum 1024, upd_total_bytes = PyNum 0,
            upd_speed = PyNum 0, upd_eta = PyNum 0, upd_force = False\<rparr>]"
  by (simp add: ytdlp_hook_def Let_def py_get_def py_or_def)

end
